theory Spec2Isabelle
  imports Main "HOL-Library.Multiset"
begin

section \<open>JavaScript values\<close>

text \<open>
  The fields the program only tests for truthiness (\<open>archived_flag\<close>, \<open>success\<close>,
  \<open>more_items_in_collection\<close>) are JavaScript values. Numbers are the integers the
  service sends (0 and 1 for a flag).
\<close>

datatype jsval = JUndefined | JNull | JBool bool | JNum int | JStr string

fun truthy :: "jsval \<Rightarrow> bool" where
  "truthy JUndefined = False"
| "truthy JNull = False"
| "truthy (JBool b) = b"
| "truthy (JNum n) = (n \<noteq> 0)"
| "truthy (JStr s) = (s \<noteq> [])"

text \<open>\<open>a || b\<close> where \<open>a\<close> is a string or undefined and \<open>b\<close> is a string.\<close>

definition or_else :: "string option \<Rightarrow> string \<Rightarrow> string" where
  "or_else a b = (case a of None \<Rightarrow> b | Some s \<Rightarrow> if s = [] then b else s)"

section \<open>Data model\<close>

record party =
  name :: "string option"

record party_lists =
  parties_to :: "party list option"
  parties_from :: "party list option"

record thread =
  thread_id :: nat
  subject :: "string option"
  parties :: "party_lists option"
  archived_flag :: jsval

record pagination_t =
  more_items_in_collection :: jsval

record additional_data_t =
  pagination :: "pagination_t option"

text \<open>
  A response body: the JSON object of the service, each field possibly absent
  (\<open>None\<close>, or \<open>JUndefined\<close> for \<open>success\<close>).
\<close>

record body =
  data :: "thread list option"
  additional_data :: "additional_data_t option"
  success :: jsval

record js_error =
  message :: string
  response_error :: "string option"

text \<open>
  The two requests of the program. The URL prefix and the \<open>api_token\<close> parameter are
  the same on every request and are left out; \<open>Get start limit\<close> is the list request
  of the inbox folder, \<open>Put threadId\<close> the update with body \<open>{archived_flag: 1}\<close>.
\<close>

datatype request = Get nat nat | Put nat

text \<open>
  What axios gives back: the promise is rejected (transport error or error status), or
  it resolves to a response whose \<open>data\<close> is \<open>null\<close> (\<open>None\<close>) or an object.
\<close>

datatype reply = Rejected js_error | Responded "body option"

record stats =
  total_s :: nat
  archived :: nat
  alreadyArchived :: nat
  failed :: nat

text \<open>
  The surroundings of one process: the command line, the environment variable with the
  token, the remote service (its reply may depend on every request sent before) and
  the answer typed at the interactive prompt (the prompt may also fail).
\<close>

record env =
  argv :: "string list"
  api_token :: "string option"
  service :: "request list \<Rightarrow> request \<Rightarrow> reply"
  prompt :: "nat \<Rightarrow> js_error + bool"

text \<open>The lines written to the terminal (console and spinner), without colours.\<close>

datatype line =
    SpinnerFetching nat
  | SpinnerFetched nat
  | SpinnerFetchFailed
  | ErrorLine string
  | FailedToArchive nat string
  | FetchingAll
  | SummaryHeader
  | TotalFound nat
  | UnarchivedCount nat
  | AlreadyArchivedCount nat
  | SampleHeader
  | Sample string string
  | AndMore nat
  | DryRunBanner
  | WouldArchive string string
  | SpinnerArchiving
  | SpinnerText nat nat string
  | SpinnerArchivingComplete
  | ResultsHeader
  | TotalProcessed nat
  | SuccessfullyArchived nat
  | FailedCount nat
  | Banner
  | NoThreadsFound
  | AllAlreadyArchived
  | Cancelled
  | FatalError string
  | TokenMissing
  | HelpText

text \<open>
  The state one run changes: \<open>this.stats\<close>, and the effects so far (requests sent,
  thread counts asked at the prompt, lines printed, milliseconds slept).
\<close>

record world =
  stats :: stats
  requests :: "request list"
  prompts :: "nat list"
  console :: "line list"
  slept :: nat

datatype outcome = Returned | Exited nat

section \<open>Effects\<close>

definition print :: "line \<Rightarrow> world \<Rightarrow> world" where
  "print l w = w\<lparr>console := console w @ [l]\<rparr>"

definition axios :: "env \<Rightarrow> request \<Rightarrow> world \<Rightarrow> reply \<times> world" where
  "axios e req w = (service e (requests w) req, w\<lparr>requests := requests w @ [req]\<rparr>)"

definition inquirer_prompt :: "env \<Rightarrow> nat \<Rightarrow> world \<Rightarrow> (js_error + bool) \<times> world" where
  "inquirer_prompt e threadCount w = (prompt e threadCount, w\<lparr>prompts := prompts w @ [threadCount]\<rparr>)"

definition setTimeout :: "nat \<Rightarrow> world \<Rightarrow> world" where
  "setTimeout ms w = w\<lparr>slept := slept w + ms\<rparr>"

text \<open>Reading a property of \<open>null\<close> throws a TypeError.\<close>

definition type_error :: js_error where
  "type_error = \<lparr>message = ''Cannot read properties of null'', response_error = None\<rparr>"

text \<open>\<open>error.response?.data?.error || error.message\<close>\<close>

definition error_text :: "js_error \<Rightarrow> string" where
  "error_text err = or_else (response_error err) (message err)"

section \<open>The archiver\<close>

text \<open>
  The constructor leaves with \<open>process.exit(1)\<close> when the token is undefined or
  empty, and otherwise sets \<open>this.stats\<close>. The domain and the base URL it also
  stores only shape the URL of the requests, which \<open>request\<close> leaves out.
\<close>

definition constructor :: "env \<Rightarrow> world \<Rightarrow> outcome \<times> world" where
  "constructor e w =
     (if or_else (api_token e) [] = [] then (Exited 1, print TokenMissing w)
      else (Returned,
            w\<lparr>stats := \<lparr>total_s = 0, archived = 0, alreadyArchived = 0, failed = 0\<rparr>\<rparr>))"

definition fetchMailThreads :: "env \<Rightarrow> nat \<Rightarrow> nat \<Rightarrow> world \<Rightarrow> (js_error + body) \<times> world" where
  "fetchMailThreads e start limit w =
     (let w1 = print (SpinnerFetching start) w;
          (response, w2) = axios e (Get start limit) w1
      in case response of
           Rejected err \<Rightarrow>
             (Inl err, print (ErrorLine (error_text err)) (print SpinnerFetchFailed w2))
         | Responded None \<Rightarrow>
             (Inl type_error,
              print (ErrorLine (error_text type_error)) (print SpinnerFetchFailed w2))
         | Responded (Some b) \<Rightarrow>
             (Inr b,
              print (SpinnerFetched (case data b of None \<Rightarrow> 0 | Some ts \<Rightarrow> length ts)) w2))"

definition archiveThread :: "env \<Rightarrow> nat \<Rightarrow> world \<Rightarrow> bool \<times> world" where
  "archiveThread e threadId w =
     (let (response, w1) = axios e (Put threadId) w
      in case response of
           Rejected err \<Rightarrow>
             (False,
              print (FailedToArchive threadId (error_text err))
                (w1\<lparr>stats := (stats w1)\<lparr>failed := failed (stats w1) + 1\<rparr>\<rparr>))
         | Responded None \<Rightarrow>
             (False,
              print (FailedToArchive threadId (error_text type_error))
                (w1\<lparr>stats := (stats w1)\<lparr>failed := failed (stats w1) + 1\<rparr>\<rparr>))
         | Responded (Some b) \<Rightarrow>
             (if truthy (success b)
              then (True, w1\<lparr>stats := (stats w1)\<lparr>archived := archived (stats w1) + 1\<rparr>\<rparr>)
              else (False, w1\<lparr>stats := (stats w1)\<lparr>failed := failed (stats w1) + 1\<rparr>\<rparr>)))"

text \<open>\<open>data.additional_data?.pagination?.more_items_in_collection\<close>\<close>

definition more_items :: "body \<Rightarrow> jsval" where
  "more_items b =
     (case additional_data b of
        None \<Rightarrow> JUndefined
      | Some a \<Rightarrow> (case pagination a of
                    None \<Rightarrow> JUndefined
                  | Some p \<Rightarrow> more_items_in_collection p))"

text \<open>
  The \<open>while (hasMore)\<close> loop of \<open>getAllThreads\<close>. Nothing bounds the number of pages a
  service can send, so the loop is a partial function: \<open>None\<close> is a loop that never ends.
  A failed fetch leaves the loop with the error (the exception goes through).
\<close>

partial_function (option) getAllThreads_loop ::
  "env \<Rightarrow> thread list \<Rightarrow> bool \<Rightarrow> nat \<Rightarrow> world \<Rightarrow> ((js_error + thread list) \<times> world) option"
where
  "getAllThreads_loop e allThreads hasMore start w =
     (if hasMore then
        (case fetchMailThreads e start 100 w of
           (Inl err, w1) \<Rightarrow> Some (Inl err, w1)
         | (Inr b, w1) \<Rightarrow>
             (case data b of
                None \<Rightarrow> getAllThreads_loop e allThreads False start w1
              | Some ts \<Rightarrow>
                  if length ts > 0 then
                    getAllThreads_loop e (allThreads @ ts)
                      (if \<not> truthy (more_items b) then False else hasMore) (start + 100) w1
                  else getAllThreads_loop e allThreads False start w1))
      else Some (Inr allThreads, w))"

declare getAllThreads_loop.simps [code]

definition getAllThreads :: "env \<Rightarrow> world \<Rightarrow> ((js_error + thread list) \<times> world) option" where
  "getAllThreads e w = getAllThreads_loop e [] True 0 (print FetchingAll w)"

text \<open>\<open>thread.parties?.to?.[0]?.name || thread.parties?.from?.[0]?.name || 'Unknown'\<close>\<close>

definition first_name :: "party list option \<Rightarrow> string option" where
  "first_name ps = (case ps of None \<Rightarrow> None | Some [] \<Rightarrow> None | Some (p # _) \<Rightarrow> name p)"

definition parties_of :: "thread \<Rightarrow> string" where
  "parties_of t =
     or_else (case parties t of None \<Rightarrow> None | Some ps \<Rightarrow> first_name (parties_to ps))
       (or_else (case parties t of None \<Rightarrow> None | Some ps \<Rightarrow> first_name (parties_from ps))
          ''Unknown'')"

definition subject_of :: "thread \<Rightarrow> string" where
  "subject_of t = or_else (subject t) ''No subject''"

definition unarchived_of :: "thread list \<Rightarrow> thread list" where
  "unarchived_of threads = filter (\<lambda>t. \<not> truthy (archived_flag t)) threads"

definition archived_of :: "thread list \<Rightarrow> thread list" where
  "archived_of threads = filter (\<lambda>t. truthy (archived_flag t)) threads"

definition displayThreadInfo :: "thread list \<Rightarrow> world \<Rightarrow> thread list \<times> world" where
  "displayThreadInfo threads w =
     (let w1 = print (TotalFound (length threads)) (print SummaryHeader w);
          unarchived = unarchived_of threads;
          archived = archived_of threads;
          w2 = print (AlreadyArchivedCount (length archived))
                 (print (UnarchivedCount (length unarchived)) w1);
          w3 = (if length unarchived > 0 then
                  (let w4 = fold (\<lambda>t. print (Sample (subject_of t) (parties_of t)))
                              (take 5 unarchived) (print SampleHeader w2)
                   in if length unarchived > 5
                      then print (AndMore (length unarchived - 5)) w4 else w4)
                else w2)
      in (unarchived, w3))"

definition confirmArchive :: "env \<Rightarrow> nat \<Rightarrow> world \<Rightarrow> (js_error + bool) \<times> world" where
  "confirmArchive e threadCount w =
     (if ''--yes'' \<in> set (argv e) \<or> ''-y'' \<in> set (argv e) then (Inr True, w)
      else inquirer_prompt e threadCount w)"

text \<open>The \<open>for\<close> loop of \<open>archiveAll\<close>, from index \<open>i\<close>.\<close>

function archiveAll_loop :: "env \<Rightarrow> thread list \<Rightarrow> nat \<Rightarrow> world \<Rightarrow> world" where
  "archiveAll_loop e threads i w =
     (if i < length threads then
        (let t = threads ! i;
             w1 = print (SpinnerText (i + 1) (length threads) (subject_of t)) w;
             (ok, w2) = archiveThread e (thread_id t) w1;
             w3 = setTimeout 100 w2
         in archiveAll_loop e threads (i + 1) w3)
      else w)"
  by pat_completeness auto
termination
  by (relation "measure (\<lambda>(e, threads, i, w). length threads - i)") auto

declare archiveAll_loop.simps [simp del]

definition archiveAll :: "env \<Rightarrow> thread list \<Rightarrow> world \<Rightarrow> world" where
  "archiveAll e threads w =
     (let isDryRun = (''--dry-run'' \<in> set (argv e))
      in if isDryRun then
           fold (\<lambda>t. print (WouldArchive (subject_of t) (parties_of t))) threads
             (print DryRunBanner w)
         else
           (let w1 = print SpinnerArchiving w;
                w2 = w1\<lparr>stats := (stats w1)\<lparr>total_s := length threads\<rparr>\<rparr>;
                w3 = archiveAll_loop e threads 0 w2
            in print SpinnerArchivingComplete w3))"

definition displayStats :: "world \<Rightarrow> world" where
  "displayStats w =
     (let w1 = print (SuccessfullyArchived (archived (stats w)))
                 (print (TotalProcessed (total_s (stats w))) (print ResultsHeader w))
      in if failed (stats w) > 0 then print (FailedCount (failed (stats w))) w1 else w1)"

text \<open>The \<open>catch\<close> block of \<open>run\<close>.\<close>

definition fatal :: "js_error \<Rightarrow> world \<Rightarrow> outcome \<times> world" where
  "fatal err w = (Exited 1, print (FatalError (message err)) w)"

definition run :: "env \<Rightarrow> world \<Rightarrow> (outcome \<times> world) option" where
  "run e w =
     (case getAllThreads e (print Banner w) of
        None \<Rightarrow> None
      | Some (Inl err, w1) \<Rightarrow> Some (fatal err w1)
      | Some (Inr allThreads, w1) \<Rightarrow>
          if length allThreads = 0 then Some (Returned, print NoThreadsFound w1)
          else
            (let (unarchivedThreads, w2) = displayThreadInfo allThreads w1
             in if length unarchivedThreads = 0
                then Some (Returned, print AllAlreadyArchived w2)
                else
                  (case confirmArchive e (length unarchivedThreads) w2 of
                     (Inl err, w3) \<Rightarrow> Some (fatal err w3)
                   | (Inr shouldArchive, w3) \<Rightarrow>
                       if \<not> shouldArchive then Some (Returned, print Cancelled w3)
                       else Some (Returned, displayStats (archiveAll e unarchivedThreads w3)))))"

definition parseArgs :: "env \<Rightarrow> world \<Rightarrow> outcome \<times> world" where
  "parseArgs e w =
     (let args = drop 2 (argv e);
          help = (''--help'' \<in> set args \<or> ''-h'' \<in> set args)
      in if help then (Exited 0, print HelpText w) else (Returned, w))"

text \<open>The main execution; the result is the exit status of the process.\<close>

definition main :: "env \<Rightarrow> world \<Rightarrow> (nat \<times> world) option" where
  "main e w =
     (case parseArgs e w of
        (Exited c, w1) \<Rightarrow> Some (c, w1)
      | (Returned, w1) \<Rightarrow>
          (case constructor e w1 of
             (Exited c, w2) \<Rightarrow> Some (c, w2)
           | (Returned, w2) \<Rightarrow>
               (case run e w2 of
                  None \<Rightarrow> None
                | Some (Exited c, w3) \<Rightarrow> Some (c, w3)
                | Some (Returned, w3) \<Rightarrow> Some (0, w3))))"

section \<open>Describing the service\<close>

text \<open>
  The list requests of a run: the \<open>k\<close>-th one asks for offset \<open>100 * k\<close> with page
  size 100. \<open>page e hist k\<close> is what the service, having seen the requests \<open>hist\<close>
  before the run, replies to it.
\<close>

definition gets :: "nat \<Rightarrow> request list" where
  "gets k = map (\<lambda>j. Get (100 * j) 100) [0..<k]"

definition page :: "env \<Rightarrow> request list \<Rightarrow> nat \<Rightarrow> reply" where
  "page e hist k = service e (hist @ gets k) (Get (100 * k) 100)"

text \<open>A fetch has failed when axios rejects or the body is \<open>null\<close>.\<close>

fun delivered :: "reply \<Rightarrow> bool" where
  "delivered (Responded (Some b)) = True"
| "delivered _ = False"

fun items :: "reply \<Rightarrow> thread list" where
  "items (Responded (Some b)) = (case data b of None \<Rightarrow> [] | Some ts \<Rightarrow> ts)"
| "items _ = []"

fun indicator :: "reply \<Rightarrow> bool" where
  "indicator (Responded (Some b)) = truthy (more_items b)"
| "indicator _ = False"

definition continues :: "reply \<Rightarrow> bool" where
  "continues r = (delivered r \<and> items r \<noteq> [] \<and> indicator r)"

definition stops :: "reply \<Rightarrow> bool" where
  "stops r = (delivered r \<and> (items r = [] \<or> \<not> indicator r))"

text \<open>
  The update requests of a batch, and the reply to the \<open>i\<close>-th of them when the
  service has seen \<open>hist\<close> before the batch.
\<close>

definition puts :: "thread list \<Rightarrow> request list" where
  "puts threads = map (\<lambda>t. Put (thread_id t)) threads"

definition put_reply :: "env \<Rightarrow> request list \<Rightarrow> thread list \<Rightarrow> nat \<Rightarrow> reply" where
  "put_reply e hist threads i =
     service e (hist @ puts (take i threads)) (Put (thread_id (threads ! i)))"

fun acknowledged :: "reply \<Rightarrow> bool" where
  "acknowledged (Responded (Some b)) = truthy (success b)"
| "acknowledged _ = False"

text \<open>
  How many of the replies to the update requests of a batch, from the \<open>i\<close>-th on,
  acknowledge success, and how many do not.
\<close>

definition acked :: "env \<Rightarrow> request list \<Rightarrow> thread list \<Rightarrow> nat \<Rightarrow> nat" where
  "acked e hist threads i =
     length (filter (\<lambda>j. acknowledged (put_reply e hist threads j)) [i..<length threads])"

definition unacked :: "env \<Rightarrow> request list \<Rightarrow> thread list \<Rightarrow> nat \<Rightarrow> nat" where
  "unacked e hist threads i =
     length (filter (\<lambda>j. \<not> acknowledged (put_reply e hist threads j)) [i..<length threads])"

text \<open>The thread ids of the update requests among the requests sent, in order.\<close>

fun put_ids :: "request list \<Rightarrow> nat list" where
  "put_ids [] = []"
| "put_ids (Put i # rs) = i # put_ids rs"
| "put_ids (Get start limit # rs) = put_ids rs"

section \<open>A small inbox\<close>

text \<open>
  A service with two pages: threads 2 (active), 3 (archived) and 4 (active) on the
  first, which announces more, and thread 6 (active) on the second, which does not.
  It answers the update of thread 4 with an error status, the update of thread 5 with
  \<open>success: false\<close>, and acknowledges every other update.
\<close>

definition mail :: "nat \<Rightarrow> int \<Rightarrow> thread" where
  "mail i flag =
     \<lparr>thread_id = i, subject = Some ''Offer'', parties = None, archived_flag = JNum flag\<rparr>"

definition listing :: "thread list \<Rightarrow> bool \<Rightarrow> body" where
  "listing ts has_more =
     \<lparr>data = Some ts,
      additional_data =
        Some \<lparr>pagination = Some \<lparr>more_items_in_collection = JBool has_more\<rparr>\<rparr>,
      success = JBool True\<rparr>"

definition answer :: "bool \<Rightarrow> body" where
  "answer ok = \<lparr>data = None, additional_data = None, success = JBool ok\<rparr>"

definition status_500 :: js_error where
  "status_500 =
     \<lparr>message = ''Request failed with status code 500'', response_error = None\<rparr>"

fun inbox :: "request list \<Rightarrow> request \<Rightarrow> reply" where
  "inbox hist (Get start limit) =
     (if start = 0 then Responded (Some (listing [mail 2 0, mail 3 1, mail 4 0] True))
      else if start = 100 then Responded (Some (listing [mail 6 0] False))
      else Responded (Some (listing [] False)))"
| "inbox hist (Put i) =
     (if i = 4 then Rejected status_500
      else if i = 5 then Responded (Some (answer False))
      else Responded (Some (answer True)))"

text \<open>The same inbox when the second page cannot be fetched.\<close>

fun broken_inbox :: "request list \<Rightarrow> request \<Rightarrow> reply" where
  "broken_inbox hist (Get start limit) =
     (if start = 0 then Responded (Some (listing [mail 2 0, mail 3 1, mail 4 0] True))
      else Rejected status_500)"
| "broken_inbox hist (Put i) = Responded (Some (answer True))"

text \<open>A command line with the given flags; at the prompt the user says no.\<close>

definition shell :: "(request list \<Rightarrow> request \<Rightarrow> reply) \<Rightarrow> string list \<Rightarrow> env" where
  "shell srv flags =
     \<lparr>argv = ''node'' # ''archiver.js'' # flags, api_token = Some ''secret'',
      service = srv, prompt = (\<lambda>n. Inr False)\<rparr>"

definition boot :: world where
  "boot =
     \<lparr>stats = \<lparr>total_s = 0, archived = 0, alreadyArchived = 0, failed = 0\<rparr>,
      requests = [], prompts = [], console = [], slept = 0\<rparr>"

section \<open>Effects of the operations\<close>

lemma print_fields [simp]:
  "stats (print l w) = stats w" "requests (print l w) = requests w"
  "prompts (print l w) = prompts w" "slept (print l w) = slept w"
  "console (print l w) = console w @ [l]"
  by (simp_all add: print_def)

lemma fold_print: "fold (\<lambda>t. print (f t)) ts w = w\<lparr>console := console w @ map f ts\<rparr>"
  by (induction ts arbitrary: w) (simp_all add: print_def)

lemma fetch_fst:
  "fst (fetchMailThreads e s l w) =
     (case service e (requests w) (Get s l) of
        Rejected err \<Rightarrow> Inl err
      | Responded None \<Rightarrow> Inl type_error
      | Responded (Some b) \<Rightarrow> Inr b)"
  by (simp add: fetchMailThreads_def axios_def Let_def split: reply.splits option.splits)

lemma fetch_snd:
  "requests (snd (fetchMailThreads e s l w)) = requests w @ [Get s l]"
  "stats (snd (fetchMailThreads e s l w)) = stats w"
  "prompts (snd (fetchMailThreads e s l w)) = prompts w"
  "slept (snd (fetchMailThreads e s l w)) = slept w"
  by (simp_all add: fetchMailThreads_def axios_def Let_def split: reply.splits option.splits)

lemma gets_Suc: "gets (Suc k) = gets k @ [Get (100 * k) 100]"
  by (simp add: gets_def)

lemma loop_False: "getAllThreads_loop e acc False s w = Some (Inr acc, w)"
  by (subst getAllThreads_loop.simps) simp

lemma loop_stop:
  assumes "stops (service e (requests w) (Get s 100))"
  shows "getAllThreads_loop e acc True s w =
         Some (Inr (acc @ items (service e (requests w) (Get s 100))),
               snd (fetchMailThreads e s 100 w))"
proof -
  obtain b where b: "service e (requests w) (Get s 100) = Responded (Some b)"
    using assms by (cases "service e (requests w) (Get s 100)" rule: delivered.cases)
      (auto simp: stops_def)
  have f: "fetchMailThreads e s 100 w = (Inr b, snd (fetchMailThreads e s 100 w))"
    using fetch_fst [of e s 100 w] b by (simp add: prod_eq_iff)
  show ?thesis
    using assms b
    by (subst getAllThreads_loop.simps, subst f)
       (auto simp: stops_def loop_False split: option.splits)
qed

lemma loop_continue:
  assumes "continues (service e (requests w) (Get s 100))"
  shows "getAllThreads_loop e acc True s w =
         getAllThreads_loop e (acc @ items (service e (requests w) (Get s 100))) True (s + 100)
               (snd (fetchMailThreads e s 100 w))"
proof -
  obtain b where b: "service e (requests w) (Get s 100) = Responded (Some b)"
    using assms by (cases "service e (requests w) (Get s 100)" rule: delivered.cases)
      (auto simp: continues_def)
  have f: "fetchMailThreads e s 100 w = (Inr b, snd (fetchMailThreads e s 100 w))"
    using fetch_fst [of e s 100 w] b by (simp add: prod_eq_iff)
  show ?thesis
    using assms b
    by (subst getAllThreads_loop.simps, subst f)
       (auto simp: continues_def split: option.splits)
qed

lemma loop_fail:
  assumes "\<not> delivered (service e (requests w) (Get s 100))"
  shows "\<exists>err. getAllThreads_loop e acc True s w =
         Some (Inl err, snd (fetchMailThreads e s 100 w))"
proof -
  obtain err where "fst (fetchMailThreads e s 100 w) = Inl err"
    using assms fetch_fst [of e s 100 w]
    by (cases "service e (requests w) (Get s 100)" rule: delivered.cases) auto
  then have f: "fetchMailThreads e s 100 w = (Inl err, snd (fetchMailThreads e s 100 w))"
    by (simp add: prod_eq_iff)
  show ?thesis
    by (subst getAllThreads_loop.simps, subst f) simp
qed

lemma loop_pages:
  assumes "\<forall>j. k \<le> j \<and> j < n \<longrightarrow> continues (page e hist j)"
      and "k \<le> n" and "requests w = hist @ gets k"
  shows "(stops (page e hist n) \<longrightarrow>
         (\<exists>w'. getAllThreads_loop e acc True (100 * k) w =
                 Some (Inr (acc @ concat (map (\<lambda>j. items (page e hist j)) [k..<Suc n])), w')
             \<and> requests w' = hist @ gets (Suc n) \<and> stats w' = stats w
             \<and> prompts w' = prompts w \<and> slept w' = slept w))
       \<and> (\<not> delivered (page e hist n) \<longrightarrow>
         (\<exists>err w'. getAllThreads_loop e acc True (100 * k) w = Some (Inl err, w')
             \<and> requests w' = hist @ gets (Suc n) \<and> stats w' = stats w
             \<and> prompts w' = prompts w \<and> slept w' = slept w))"
  using assms
proof (induction "n - k" arbitrary: k acc w)
  case 0
  then have kn: "k = n" by simp
  have r: "requests w = hist @ gets n" using 0 kn by simp
  show ?case
    using loop_stop [of e w "100 * n" acc] loop_fail [of e w "100 * n" acc] r
    by (auto simp add: kn page_def fetch_snd gets_Suc)
next
  case (Suc d)
  then have lt: "k < n" and d: "d = n - Suc k" by simp_all
  let ?w1 = "snd (fetchMailThreads e (100 * k) 100 w)"
  let ?acc1 = "acc @ items (page e hist k)"
  have c: "continues (service e (requests w) (Get (100 * k) 100))"
    using Suc.prems lt by (simp add: page_def)
  have step: "getAllThreads_loop e acc True (100 * k) w =
              getAllThreads_loop e ?acc1 True (100 * Suc k) ?w1"
    using loop_continue [OF c, of acc] Suc.prems by (simp add: page_def add.commute)
  have r: "requests ?w1 = hist @ gets (Suc k)"
    using Suc.prems by (simp add: fetch_snd gets_Suc)
  have a: "\<forall>j. Suc k \<le> j \<and> j < n \<longrightarrow> continues (page e hist j)"
    using Suc.prems by simp
  have up: "[k..<Suc n] = k # [Suc k..<Suc n]"
    using lt by (simp add: upt_conv_Cons)
  have le: "Suc k \<le> n" using lt by simp
  from Suc.hyps(1) [OF d a le r, of ?acc1] show ?case
    unfolding step up by (simp del: upt_Suc add: fetch_snd)
qed

lemma put_ids_append [simp]: "put_ids (xs @ ys) = put_ids xs @ put_ids ys"
  by (induction xs rule: put_ids.induct) simp_all

lemma put_ids_gets [simp]: "put_ids (gets k) = []"
  by (induction k) (simp_all add: gets_Suc, simp add: gets_def)

lemma put_ids_puts [simp]: "put_ids (puts threads) = map thread_id threads"
  by (induction threads) (simp_all add: puts_def)

text \<open>Whatever the service does, a loop that ends has only fetched.\<close>

lemma loop_frame:
  assumes "getAllThreads_loop e acc h s w = Some y"
  shows "stats (snd y) = stats w \<and> prompts (snd y) = prompts w \<and> slept (snd y) = slept w
     \<and> put_ids (requests (snd y)) = put_ids (requests w)"
  using assms
proof (induction e acc h s w y rule: getAllThreads_loop.raw_induct [rotated 1, consumes 1, case_names step])
  case (step loop e acc h s w y)
  obtain r1 w1 where f: "fetchMailThreads e s 100 w = (r1, w1)"
    by (cases "fetchMailThreads e s 100 w")
  have w1: "stats w1 = stats w" "prompts w1 = prompts w" "slept w1 = slept w"
    "requests w1 = requests w @ [Get s 100]"
    using fetch_snd [of e s 100 w] f by simp_all
  show ?case
  proof (cases "h \<and> (\<exists>b. r1 = Inr b)")
    case False
    with step(2) f w1 show ?thesis
      by (cases r1) (auto split: if_splits)
  next
    case True
    have ih: "stats (snd y) = stats w \<and> prompts (snd y) = prompts w
        \<and> slept (snd y) = slept w
        \<and> put_ids (requests (snd y)) = put_ids (requests w)"
      if "loop e acc' h' s' w1 = Some y" for acc' h' s'
      using step(1) [OF that] w1 by simp
    from True step(2) f have
      "loop e acc False s w1 = Some y
       \<or> (\<exists>ts. loop e (acc @ ts) False (s + 100) w1 = Some y)
       \<or> (\<exists>ts. loop e (acc @ ts) True (s + 100) w1 = Some y)"
      by (auto split: option.splits if_splits)
    then show ?thesis using ih by blast
  qed
qed

text \<open>A service that always has more keeps the loop fetching for ever.\<close>

lemma loop_diverges_aux:
  assumes "getAllThreads_loop e acc h s w = Some y"
  shows "\<not> (h \<and> (\<exists>k hist. s = 100 * k \<and> requests w = hist @ gets k
               \<and> (\<forall>j. continues (page e hist j))))"
  using assms
proof (induction e acc h s w y rule: getAllThreads_loop.raw_induct [rotated 1, consumes 1, case_names step])
  case (step loop e acc h s w y)
  show ?case
  proof
    assume "h \<and> (\<exists>k hist. s = 100 * k \<and> requests w = hist @ gets k
               \<and> (\<forall>j. continues (page e hist j)))"
    then obtain k hist where h: h and s: "s = 100 * k" and r: "requests w = hist @ gets k"
      and c: "\<forall>j. continues (page e hist j)" by blast
    have ck: "continues (service e (requests w) (Get s 100))"
      using c r s by (simp add: page_def)
    then obtain b where b: "service e (requests w) (Get s 100) = Responded (Some b)"
      by (cases "service e (requests w) (Get s 100)" rule: delivered.cases)
         (auto simp: continues_def)
    obtain w1 where f: "fetchMailThreads e s 100 w = (Inr b, w1)"
      using fetch_fst [of e s 100 w] b by (cases "fetchMailThreads e s 100 w") simp
    have w1: "requests w1 = hist @ gets (Suc k)"
      using fetch_snd(1) [of e s 100 w] f r s by (simp add: gets_Suc)
    from step(2) h f ck b have "loop e (acc @ the (data b)) True (s + 100) w1 = Some y"
      by (auto simp: continues_def split: option.splits if_splits)
    from step(1) [OF this] have
      "\<not> (\<exists>k hist. s + 100 = 100 * k \<and> requests w1 = hist @ gets k
               \<and> (\<forall>j. continues (page e hist j)))" by simp
    moreover have "s + 100 = 100 * Suc k" using s by simp
    ultimately show False using c w1 by blast
  qed
qed

lemma getAllThreads_diverges:
  assumes "\<forall>k. continues (page e (requests w) k)"
  shows "getAllThreads e w = None"
proof (cases "getAllThreads e w")
  case (Some y)
  then have "getAllThreads_loop e [] True 0 (print FetchingAll w) = Some y"
    by (simp add: getAllThreads_def)
  from loop_diverges_aux [OF this] have
    "\<not> (\<exists>k hist. 0 = 100 * k \<and> requests w = hist @ gets k
           \<and> (\<forall>j. continues (page e hist j)))" by simp
  moreover have "(0::nat) = 100 * 0 \<and> requests w = requests w @ gets 0"
    by (simp add: gets_def)
  ultimately show ?thesis using assms by blast
qed simp

lemma getAllThreads_frame:
  assumes "getAllThreads e w = Some (r, w')"
  shows "stats w' = stats w" "prompts w' = prompts w" "slept w' = slept w"
    "put_ids (requests w') = put_ids (requests w)"
  using loop_frame [of e "[]" True 0 "print FetchingAll w" "(r, w')"] assms
  by (simp_all add: getAllThreads_def)

lemma archiveThread_fst:
  "fst (archiveThread e i w) = acknowledged (service e (requests w) (Put i))"
  by (cases "service e (requests w) (Put i)" rule: acknowledged.cases)
     (simp_all add: archiveThread_def axios_def)

lemma archiveThread_stats:
  "stats (snd (archiveThread e i w)) =
     (if acknowledged (service e (requests w) (Put i))
      then (stats w)\<lparr>archived := archived (stats w) + 1\<rparr>
      else (stats w)\<lparr>failed := failed (stats w) + 1\<rparr>)"
  by (cases "service e (requests w) (Put i)" rule: acknowledged.cases)
     (simp_all add: archiveThread_def axios_def)

lemma archiveThread_snd:
  "requests (snd (archiveThread e i w)) = requests w @ [Put i]"
  "prompts (snd (archiveThread e i w)) = prompts w"
  by (cases "service e (requests w) (Put i)" rule: acknowledged.cases;
      simp add: archiveThread_def axios_def)+

lemma setTimeout_fields [simp]:
  "stats (setTimeout ms w) = stats w" "requests (setTimeout ms w) = requests w"
  "prompts (setTimeout ms w) = prompts w" "console (setTimeout ms w) = console w"
  by (simp_all add: setTimeout_def)

lemma puts_take_Suc: "i < length threads \<Longrightarrow>
    puts (take (Suc i) threads) = puts (take i threads) @ [Put (thread_id (threads ! i))]"
  by (simp add: puts_def take_Suc_conv_app_nth)

text \<open>
  The batch loop from index \<open>i\<close>: every remaining thread gets its request, and each
  reply moves exactly one of the two counters.
\<close>

lemma archiveAll_loop_effect:
  assumes "i \<le> length threads" and "requests w = hist @ puts (take i threads)"
  shows "requests (archiveAll_loop e threads i w) = hist @ puts threads
       \<and> prompts (archiveAll_loop e threads i w) = prompts w
       \<and> stats (archiveAll_loop e threads i w) =
           (stats w)\<lparr>archived := archived (stats w) + acked e hist threads i,
                     failed := failed (stats w) + unacked e hist threads i\<rparr>"
  using assms
proof (induction e threads i w rule: archiveAll_loop.induct)
  case (1 e threads i w)
  show ?case
  proof (cases "i < length threads")
    case False
    with 1(2,3) show ?thesis
      by (subst (1 2 3) archiveAll_loop.simps) (simp add: acked_def unacked_def)
  next
    case True
    let ?t = "threads ! i"
    let ?w1 = "print (SpinnerText (i + 1) (length threads) (subject_of ?t)) w"
    let ?w2 = "snd (archiveThread e (thread_id ?t) ?w1)"
    let ?w3 = "setTimeout 100 ?w2"
    have unf: "archiveAll_loop e threads i w = archiveAll_loop e threads (i + 1) ?w3"
      using True by (subst archiveAll_loop.simps) (simp add: Let_def split: prod.splits)
    have r3: "requests ?w3 = hist @ puts (take (i + 1) threads)"
      using 1(3) True by (simp add: archiveThread_snd puts_take_Suc)
    have rep: "service e (requests ?w1) (Put (thread_id ?t)) = put_reply e hist threads i"
      using 1(3) by (simp add: put_reply_def)
    have s3: "stats ?w3 =
        (if acknowledged (put_reply e hist threads i)
         then (stats w)\<lparr>archived := archived (stats w) + 1\<rparr>
         else (stats w)\<lparr>failed := failed (stats w) + 1\<rparr>)"
      using rep by (simp add: archiveThread_stats)
    have up: "[i..<length threads] = i # [i + 1..<length threads]"
      using True by (simp add: upt_conv_Cons)
    have ih: "requests (archiveAll_loop e threads (i + 1) ?w3) = hist @ puts threads
       \<and> prompts (archiveAll_loop e threads (i + 1) ?w3) = prompts ?w3
       \<and> stats (archiveAll_loop e threads (i + 1) ?w3) =
           (stats ?w3)\<lparr>archived := archived (stats ?w3) + acked e hist threads (i + 1),
                     failed := failed (stats ?w3) + unacked e hist threads (i + 1)\<rparr>"
      using 1(1) [OF True refl refl refl prod.collapse refl _ r3] True by simp
    show ?thesis
      unfolding unf using ih s3
      by (simp add: acked_def unacked_def up archiveThread_snd)
  qed
qed

lemma unacked_acked: "i \<le> length threads \<Longrightarrow>
    acked e hist threads i + unacked e hist threads i = length threads - i"
  using sum_length_filter_compl [of "\<lambda>j. acknowledged (put_reply e hist threads j)" "[i..<length threads]"]
  by (simp add: acked_def unacked_def)

lemma archiveAll_dry:
  assumes "''--dry-run'' \<in> set (argv e)"
  shows "archiveAll e threads w =
     w\<lparr>console := console w @
          DryRunBanner # map (\<lambda>t. WouldArchive (subject_of t) (parties_of t)) threads\<rparr>"
  using assms by (simp add: archiveAll_def fold_print print_def)

lemma archiveAll_effect:
  assumes "''--dry-run'' \<notin> set (argv e)"
  shows "requests (archiveAll e threads w) = requests w @ puts threads"
    and "prompts (archiveAll e threads w) = prompts w"
    and "stats (archiveAll e threads w) =
           \<lparr>total_s = length threads,
            archived = archived (stats w) + acked e (requests w) threads 0,
            alreadyArchived = alreadyArchived (stats w),
            failed = failed (stats w) + unacked e (requests w) threads 0\<rparr>"
proof -
  let ?w2 = "(print SpinnerArchiving w)\<lparr>stats := (stats w)\<lparr>total_s := length threads\<rparr>\<rparr>"
  have a: "archiveAll e threads w = print SpinnerArchivingComplete (archiveAll_loop e threads 0 ?w2)"
    using assms by (simp add: archiveAll_def Let_def)
  have "requests ?w2 = requests w @ puts (take 0 threads)"
    by (simp add: puts_def)
  from archiveAll_loop_effect [OF _ this, of e] show
    "requests (archiveAll e threads w) = requests w @ puts threads"
    "prompts (archiveAll e threads w) = prompts w"
    "stats (archiveAll e threads w) =
           \<lparr>total_s = length threads,
            archived = archived (stats w) + acked e (requests w) threads 0,
            alreadyArchived = alreadyArchived (stats w),
            failed = failed (stats w) + unacked e (requests w) threads 0\<rparr>"
    by (simp_all add: a)
qed

lemma displayThreadInfo_fst: "fst (displayThreadInfo threads w) = unarchived_of threads"
  by (simp add: displayThreadInfo_def Let_def)

lemma displayThreadInfo_snd:
  "stats (snd (displayThreadInfo threads w)) = stats w"
  "requests (snd (displayThreadInfo threads w)) = requests w"
  "prompts (snd (displayThreadInfo threads w)) = prompts w"
  by (simp_all add: displayThreadInfo_def Let_def fold_print)

lemma displayThreadInfo_console:
  "\<exists>ls. console (snd (displayThreadInfo threads w)) =
     console w @ [SummaryHeader, TotalFound (length threads),
                  UnarchivedCount (length (unarchived_of threads)),
                  AlreadyArchivedCount (length (archived_of threads))] @ ls"
  by (simp add: displayThreadInfo_def Let_def fold_print)

lemma confirmArchive_snd:
  "stats (snd (confirmArchive e n w)) = stats w"
  "requests (snd (confirmArchive e n w)) = requests w"
  by (simp_all add: confirmArchive_def inquirer_prompt_def)

lemma displayStats_fields:
  "stats (displayStats w) = stats w" "requests (displayStats w) = requests w"
  "prompts (displayStats w) = prompts w"
  by (simp_all add: displayStats_def Let_def)

lemma getAllThreads_pages:
  assumes "\<forall>k<n. continues (page e (requests w) k)"
  shows "stops (page e (requests w) n) \<Longrightarrow>
         \<exists>w'. getAllThreads e w =
                 Some (Inr (concat (map (\<lambda>k. items (page e (requests w) k)) [0..<Suc n])), w')
             \<and> requests w' = requests w @ gets (Suc n) \<and> stats w' = stats w
             \<and> prompts w' = prompts w"
    and "\<not> delivered (page e (requests w) n) \<Longrightarrow>
         \<exists>err w'. getAllThreads e w = Some (Inl err, w')
             \<and> requests w' = requests w @ gets (Suc n) \<and> stats w' = stats w
             \<and> prompts w' = prompts w"
proof -
  have a: "\<forall>j. 0 \<le> j \<and> j < n \<longrightarrow> continues (page e (requests w) j)"
    using assms by simp
  have r: "requests (print FetchingAll w) = requests w @ gets 0"
    by (simp add: gets_def)
  note l = loop_pages [OF a _ r, of "[]", simplified]
  show "stops (page e (requests w) n) \<Longrightarrow>
         \<exists>w'. getAllThreads e w =
                 Some (Inr (concat (map (\<lambda>k. items (page e (requests w) k)) [0..<Suc n])), w')
             \<and> requests w' = requests w @ gets (Suc n) \<and> stats w' = stats w
             \<and> prompts w' = prompts w"
    using l by (auto simp: getAllThreads_def)
  show "\<not> delivered (page e (requests w) n) \<Longrightarrow>
         \<exists>err w'. getAllThreads e w = Some (Inl err, w')
             \<and> requests w' = requests w @ gets (Suc n) \<and> stats w' = stats w
             \<and> prompts w' = prompts w"
    using l by (auto simp: getAllThreads_def)
qed

lemma run_fetch_failed:
  "getAllThreads e (print Banner w) = Some (Inl err, w1) \<Longrightarrow>
     run e w = Some (Exited 1, print (FatalError (message err)) w1)"
  by (simp add: run_def fatal_def)

lemma run_empty:
  "getAllThreads e (print Banner w) = Some (Inr [], w1) \<Longrightarrow>
     run e w = Some (Returned, print NoThreadsFound w1)"
  by (simp add: run_def)

lemma displayThreadInfo_pair:
  obtains w2 where "displayThreadInfo ts w1 = (unarchived_of ts, w2)"
    and "w2 = snd (displayThreadInfo ts w1)"
  using displayThreadInfo_fst [of ts w1] by (cases "displayThreadInfo ts w1") simp

lemma run_all_archived:
  assumes "getAllThreads e (print Banner w) = Some (Inr ts, w1)" and "ts \<noteq> []"
      and "unarchived_of ts = []"
  shows "run e w = Some (Returned, print AllAlreadyArchived (snd (displayThreadInfo ts w1)))"
proof -
  obtain w2 where d: "displayThreadInfo ts w1 = (unarchived_of ts, w2)"
    and w2: "w2 = snd (displayThreadInfo ts w1)"
    by (rule displayThreadInfo_pair)
  have "run e w = Some (Returned, print AllAlreadyArchived w2)"
    using assms by (simp add: run_def d)
  then show ?thesis by (simp add: w2)
qed

lemma run_asks:
  assumes "getAllThreads e (print Banner w) = Some (Inr ts, w1)"
      and "unarchived_of ts \<noteq> []"
  shows "run e w =
     (case confirmArchive e (length (unarchived_of ts)) (snd (displayThreadInfo ts w1)) of
        (Inl err, w3) \<Rightarrow> Some (fatal err w3)
      | (Inr shouldArchive, w3) \<Rightarrow>
          if \<not> shouldArchive then Some (Returned, print Cancelled w3)
          else Some (Returned, displayStats (archiveAll e (unarchived_of ts) w3)))"
proof -
  obtain w2 where d: "displayThreadInfo ts w1 = (unarchived_of ts, w2)"
    and w2: "w2 = snd (displayThreadInfo ts w1)"
    by (rule displayThreadInfo_pair)
  have "ts \<noteq> []" using assms(2) by (auto simp: unarchived_of_def)
  then have "run e w =
     (case confirmArchive e (length (unarchived_of ts)) w2 of
        (Inl err, w3) \<Rightarrow> Some (fatal err w3)
      | (Inr shouldArchive, w3) \<Rightarrow>
          if \<not> shouldArchive then Some (Returned, print Cancelled w3)
          else Some (Returned, displayStats (archiveAll e (unarchived_of ts) w3)))"
    using assms by (simp add: run_def d)
  then show ?thesis by (simp add: w2)
qed

text \<open>
  What a run that ends has done: the threads \<open>ts\<close> it sent an update for are none, or
  the unarchived ones of the fetched list, and the counters are untouched or count
  exactly these.
\<close>

lemma run_effect:
  assumes "run e w = Some (oc, w')"
  shows "\<exists>ts. put_ids (requests w') = put_ids (requests w) @ map thread_id ts
          \<and> (ts = [] \<or> (\<exists>fetched w1. getAllThreads e (print Banner w) = Some (Inr fetched, w1)
                            \<and> ts = unarchived_of fetched))
          \<and> (stats w' = stats w
              \<or> (\<exists>a f. a + f = length ts \<and>
                   stats w' = \<lparr>total_s = length ts, archived = archived (stats w) + a,
                               alreadyArchived = alreadyArchived (stats w),
                               failed = failed (stats w) + f\<rparr>))"
proof (cases "getAllThreads e (print Banner w)")
  case None
  with assms show ?thesis by (simp add: run_def)
next
  case (Some y)
  obtain r w1 where y: "getAllThreads e (print Banner w) = Some (r, w1)"
    using Some by (cases y) simp
  note fr = getAllThreads_frame [OF y, simplified]
  show ?thesis
  proof (cases r)
    case (Inl err)
    with assms y fr run_fetch_failed [of e w err w1] show ?thesis
      by (intro exI [of _ "[]"]) auto
  next
    case (Inr ts)
    note g = y [unfolded Inr]
    show ?thesis
    proof (cases "unarchived_of ts = []")
      case True
      show ?thesis
      proof (cases "ts = []")
        case True
        with assms g fr run_empty [of e w w1] show ?thesis
          by (intro exI [of _ "[]"]) auto
      next
        case False
        with assms g fr True run_all_archived [of e w ts w1] show ?thesis
          by (intro exI [of _ "[]"]) (auto simp: displayThreadInfo_snd)
      qed
    next
      case False
      let ?u = "unarchived_of ts"
      let ?w2 = "snd (displayThreadInfo ts w1)"
      obtain c w3 where c: "confirmArchive e (length ?u) ?w2 = (c, w3)"
        by (cases "confirmArchive e (length ?u) ?w2")
      have w3: "stats w3 = stats w" "requests w3 = requests w1"
        using confirmArchive_snd [of e "length ?u" ?w2] c fr
        by (simp_all add: displayThreadInfo_snd)
      note ra = run_asks [OF g False, unfolded c, simplified]
      show ?thesis
      proof (cases "c = Inr True")
        case False
        with assms ra w3 fr show ?thesis
          by (intro exI [of _ "[]"]) (cases c; auto simp: fatal_def)
      next
        case True
        with assms ra have w': "w' = displayStats (archiveAll e ?u w3)" by simp
        show ?thesis
        proof (cases "''--dry-run'' \<in> set (argv e)")
          case True
          with w' w3 fr show ?thesis
            by (intro exI [of _ "[]"]) (simp add: archiveAll_dry displayStats_fields)
        next
          case False
          from archiveAll_effect [OF False, of ?u w3] w' w3 fr g
            unacked_acked [of 0 ?u e "requests w3"]
          show ?thesis
            by (intro exI [of _ ?u]) (auto simp: displayStats_fields)
        qed
      qed
    qed
  qed
qed

lemma constructor_stats:
  assumes "constructor e w0 = (Returned, w)"
  shows "stats w = \<lparr>total_s = 0, archived = 0, alreadyArchived = 0, failed = 0\<rparr>"
    and "requests w = requests w0"
  using assms by (auto simp: constructor_def split: if_splits)

lemma archiveAll_alreadyArchived:
  "alreadyArchived (stats (archiveAll e threads w)) = alreadyArchived (stats w)"
proof (cases "''--dry-run'' \<in> set (argv e)")
  case True
  then show ?thesis by (simp add: archiveAll_dry)
next
  case False
  then show ?thesis by (simp add: archiveAll_effect(3))
qed

section \<open>The small inbox, evaluated\<close>

lemma listing_simps [simp]:
  "data (listing ts m) = Some ts" "more_items (listing ts m) = JBool m"
  by (simp_all add: listing_def more_items_def)

lemma mail_simps [simp]:
  "thread_id (mail i f) = i" "archived_flag (mail i f) = JNum f"
  "subject_of (mail i f) = ''Offer''" "parties_of (mail i f) = ''Unknown''"
  by (simp_all add: subject_of_def parties_of_def mail_def or_else_def)

lemma inbox_pages:
  "page (shell inbox fl) hist 0 = Responded (Some (listing [mail 2 0, mail 3 1, mail 4 0] True))"
  "page (shell inbox fl) hist (Suc 0) = Responded (Some (listing [mail 6 0] False))"
  by (simp_all add: page_def shell_def)

lemma broken_inbox_pages:
  "page (shell broken_inbox fl) hist 0 =
     Responded (Some (listing [mail 2 0, mail 3 1, mail 4 0] True))"
  "page (shell broken_inbox fl) hist (Suc 0) = Rejected status_500"
  by (simp_all add: page_def shell_def)

lemma gets_2: "gets (Suc (Suc 0)) = [Get 0 100, Get 100 100]"
  by (simp add: gets_def upt_rec)

lemma inbox_acknowledged:
  "acknowledged (put_reply (shell inbox fl) hist ts i) =
     (thread_id (ts ! i) \<noteq> 4 \<and> thread_id (ts ! i) \<noteq> 5)"
  by (simp add: put_reply_def shell_def answer_def)

lemma no_dry_run: "''--dry-run'' \<notin> set (argv (shell srv [''--yes'']))"
  by (simp add: shell_def)

lemma inbox_fetched:
  "\<exists>w1. getAllThreads (shell inbox fl) (print Banner boot) =
          Some (Inr [mail 2 0, mail 3 1, mail 4 0, mail 6 0], w1)
        \<and> requests w1 = [Get 0 100, Get 100 100] \<and> stats w1 = stats boot"
proof -
  let ?e = "shell inbox fl"
  have c: "\<forall>k<1. continues (page ?e (requests (print Banner boot)) k)"
    by (simp add: inbox_pages continues_def)
  have s: "stops (page ?e (requests (print Banner boot)) 1)"
    by (simp add: inbox_pages stops_def)
  have i: "concat (map (\<lambda>k. items (page ?e (requests (print Banner boot)) k)) [0..<Suc 1])
           = [mail 2 0, mail 3 1, mail 4 0, mail 6 0]"
    by (simp add: inbox_pages upt_rec)
  have r: "requests (print Banner boot) @ gets (Suc 1) = [Get 0 100, Get 100 100]"
    by (simp add: gets_2 boot_def)
  from getAllThreads_pages(1) [OF c s] show ?thesis
    unfolding i r by auto
qed

lemma inbox_unarchived:
  "unarchived_of [mail 2 0, mail 3 1, mail 4 0, mail 6 0] = [mail 2 0, mail 4 0, mail 6 0]"
  by (simp add: unarchived_of_def)

text \<open>The whole run on the small inbox, with \<open>--yes\<close>.\<close>

lemma inbox_run:
  "\<exists>w'. run (shell inbox [''--yes'']) boot = Some (Returned, w')
       \<and> stats w' = \<lparr>total_s = 3, archived = 2, alreadyArchived = 0, failed = 1\<rparr>
       \<and> requests w' = [Get 0 100, Get 100 100, Put 2, Put 4, Put 6]"
proof -
  let ?e = "shell inbox [''--yes'']"
  let ?ts = "[mail 2 0, mail 3 1, mail 4 0, mail 6 0]"
  let ?u = "[mail 2 0, mail 4 0, mail 6 0]"
  obtain w1 where g: "getAllThreads ?e (print Banner boot) = Some (Inr ?ts, w1)"
    and w1: "requests w1 = [Get 0 100, Get 100 100]" "stats w1 = stats boot"
    using inbox_fetched [of "[''--yes'']"] by blast
  let ?w2 = "snd (displayThreadInfo ?ts w1)"
  have u: "unarchived_of ?ts \<noteq> []" by (simp add: inbox_unarchived)
  have c: "confirmArchive ?e (length (unarchived_of ?ts)) ?w2 = (Inr True, ?w2)"
    by (simp add: confirmArchive_def shell_def)
  have r: "run ?e boot = Some (Returned, displayStats (archiveAll ?e ?u ?w2))"
    using run_asks [OF g u] c by (simp add: inbox_unarchived)
  have a: "acked ?e (requests ?w2) ?u 0 = 2" "unacked ?e (requests ?w2) ?u 0 = 1"
    by (simp_all add: acked_def unacked_def inbox_acknowledged upt_rec)
  have "stats (displayStats (archiveAll ?e ?u ?w2)) =
          \<lparr>total_s = 3, archived = 2, alreadyArchived = 0, failed = 1\<rparr>"
    using archiveAll_effect(3) [OF no_dry_run, of inbox ?u ?w2] a w1
    by (simp add: displayStats_fields displayThreadInfo_snd boot_def)
  moreover have "requests (displayStats (archiveAll ?e ?u ?w2)) =
          [Get 0 100, Get 100 100, Put 2, Put 4, Put 6]"
    using archiveAll_effect(1) [OF no_dry_run, of inbox ?u ?w2] w1
    by (simp add: displayStats_fields displayThreadInfo_snd puts_def)
  ultimately show ?thesis using r by blast
qed

section \<open>The claims\<close>

text \<open>
  C1. When the pages before the \<open>n\<close>-th are non-empty and announce more, and the
  \<open>n\<close>-th is empty or announces no more, \<open>getAllThreads\<close> returns the items of the
  pages 0 to \<open>n\<close> in order, after exactly the requests for the offsets
  0, 100, ..., 100 * \<open>n\<close>, each with page size 100.
\<close>

theorem getAllThreads_concatenates_pages:
  assumes "\<forall>k<n. continues (page e (requests w) k)"
      and "stops (page e (requests w) n)"
  shows "\<exists>w'. getAllThreads e w =
                 Some (Inr (concat (map (\<lambda>k. items (page e (requests w) k)) [0..<Suc n])), w')
             \<and> requests w' = requests w @ gets (Suc n)"
  using getAllThreads_pages(1) [OF assms] by blast

theorem getAllThreads_concatenates_pages_witness:
  "continues (page (shell inbox []) (requests boot) 0)
   \<and> stops (page (shell inbox []) (requests boot) 1)
   \<and> (\<exists>w'. getAllThreads (shell inbox []) boot =
              Some (Inr [mail 2 0, mail 3 1, mail 4 0, mail 6 0], w')
          \<and> requests w' = [Get 0 100, Get 100 100])"
proof -
  have c: "\<forall>k<1. continues (page (shell inbox []) (requests boot) k)"
    by (simp add: inbox_pages continues_def)
  have s: "stops (page (shell inbox []) (requests boot) 1)"
    by (simp add: inbox_pages stops_def)
  have i: "concat (map (\<lambda>k. items (page (shell inbox []) (requests boot) k)) [0..<Suc 1])
           = [mail 2 0, mail 3 1, mail 4 0, mail 6 0]"
    by (simp add: inbox_pages upt_rec)
  have r: "requests boot @ gets (Suc 1) = [Get 0 100, Get 100 100]"
    by (simp add: gets_2 boot_def)
  have c0: "continues (page (shell inbox []) (requests boot) 0)"
    using c by simp
  from getAllThreads_concatenates_pages [OF c s] c0 s show ?thesis
    unfolding i r by blast
qed

text \<open>
  C2. In dry-run mode \<open>archiveAll\<close> only prints: the banner and one "would archive"
  line per thread. It sends no request and leaves the statistics alone, for every
  list of threads.
\<close>

theorem dry_run_sends_nothing:
  assumes "''--dry-run'' \<in> set (argv e)"
  shows "archiveAll e threads w =
           w\<lparr>console := console w @
                DryRunBanner # map (\<lambda>t. WouldArchive (subject_of t) (parties_of t)) threads\<rparr>
       \<and> requests (archiveAll e threads w) = requests w
       \<and> stats (archiveAll e threads w) = stats w"
  using archiveAll_dry [OF assms] by simp

theorem dry_run_sends_nothing_witness:
  "''--dry-run'' \<in> set (argv (shell inbox [''--dry-run'']))
   \<and> archiveAll (shell inbox [''--dry-run'']) [mail 2 0, mail 4 0] boot =
       boot\<lparr>console := [DryRunBanner, WouldArchive ''Offer'' ''Unknown'',
                          WouldArchive ''Offer'' ''Unknown'']\<rparr>
   \<and> requests (archiveAll (shell inbox [''--dry-run'']) [mail 2 0, mail 4 0] boot) = []"
proof -
  have d: "''--dry-run'' \<in> set (argv (shell inbox [''--dry-run'']))"
    by (simp add: shell_def)
  from dry_run_sends_nothing [OF d, of "[mail 2 0, mail 4 0]" boot] d show ?thesis
    by (simp add: boot_def)
qed

text \<open>
  C3. Without dry run, on three threads of which the service acknowledges the update of
  exactly two, \<open>archiveAll\<close> leaves \<open>archived = 2\<close>, \<open>failed = 1\<close> and \<open>total = 3\<close>.
  The two counters start at 0, as they do when \<open>run\<close> calls \<open>archiveAll\<close>.
\<close>

theorem archiveAll_two_of_three:
  assumes "''--dry-run'' \<notin> set (argv e)"
      and "length threads = 3"
      and "acked e (requests w) threads 0 = 2"
      and "archived (stats w) = 0" and "failed (stats w) = 0"
  shows "archived (stats (archiveAll e threads w)) = 2
       \<and> failed (stats (archiveAll e threads w)) = 1
       \<and> total_s (stats (archiveAll e threads w)) = 3"
  using archiveAll_effect(3) [OF assms(1), of threads w]
    unacked_acked [of 0 threads e "requests w"] assms(2-)
  by simp

theorem archiveAll_two_of_three_witness:
  "''--dry-run'' \<notin> set (argv (shell inbox [''--yes'']))
   \<and> length [mail 2 0, mail 4 0, mail 6 0] = 3
   \<and> acked (shell inbox [''--yes'']) (requests boot) [mail 2 0, mail 4 0, mail 6 0] 0 = 2
   \<and> archived (stats boot) = 0 \<and> failed (stats boot) = 0
   \<and> stats (archiveAll (shell inbox [''--yes'']) [mail 2 0, mail 4 0, mail 6 0] boot) =
        \<lparr>total_s = 3, archived = 2, alreadyArchived = 0, failed = 1\<rparr>"
proof -
  let ?ts = "[mail 2 0, mail 4 0, mail 6 0]"
  have l: "length ?ts = 3" by simp
  have a: "acked (shell inbox [''--yes'']) (requests boot) ?ts 0 = 2"
    by (simp add: acked_def inbox_acknowledged upt_rec)
  have z: "archived (stats boot) = 0" "failed (stats boot) = 0"
    "alreadyArchived (stats boot) = 0"
    by (simp_all add: boot_def)
  have aa: "alreadyArchived (stats (archiveAll (shell inbox [''--yes'']) ?ts boot)) = 0"
    using archiveAll_effect(3) [OF no_dry_run, of inbox ?ts boot] z by simp
  from archiveAll_two_of_three [OF no_dry_run l a z(1,2)] no_dry_run [of inbox] l a z aa
  show ?thesis by (simp add: stats.equality)
qed

text \<open>
  C4. \<open>archiveThread\<close> returns true exactly when the reply acknowledges success. A
  rejected request, a body that cannot be read and an unacknowledged response all
  return false and add one to \<open>failed\<close>; no error leaves \<open>archiveThread\<close>. The batch
  goes on: without dry run \<open>archiveAll\<close> sends the update of every thread, and
  \<open>failed\<close> grows by the number of replies that do not acknowledge.
\<close>

theorem archive_failure_is_not_fatal:
  assumes "''--dry-run'' \<notin> set (argv e)"
  shows "fst (archiveThread e i w) = acknowledged (service e (requests w) (Put i))
       \<and> stats (snd (archiveThread e i w)) =
           (if acknowledged (service e (requests w) (Put i))
            then (stats w)\<lparr>archived := archived (stats w) + 1\<rparr>
            else (stats w)\<lparr>failed := failed (stats w) + 1\<rparr>)
       \<and> requests (archiveAll e threads w) = requests w @ puts threads
       \<and> failed (stats (archiveAll e threads w)) =
           failed (stats w) + unacked e (requests w) threads 0"
  using archiveAll_effect [OF assms, of threads w]
  by (simp add: archiveThread_fst archiveThread_stats)

theorem archive_failure_is_not_fatal_witness:
  "''--dry-run'' \<notin> set (argv (shell inbox [''--yes'']))
   \<and> fst (archiveThread (shell inbox [''--yes'']) 4 boot) = False
   \<and> failed (stats (snd (archiveThread (shell inbox [''--yes'']) 4 boot))) = 1
   \<and> requests (archiveAll (shell inbox [''--yes'']) [mail 4 0, mail 5 0, mail 6 0] boot) =
        [Put 4, Put 5, Put 6]
   \<and> failed (stats (archiveAll (shell inbox [''--yes'']) [mail 4 0, mail 5 0, mail 6 0] boot)) = 2"
proof -
  let ?ts = "[mail 4 0, mail 5 0, mail 6 0]"
  have r: "acknowledged (service (shell inbox [''--yes'']) (requests boot) (Put 4)) = False"
    by (simp add: shell_def)
  have u: "unacked (shell inbox [''--yes'']) (requests boot) ?ts 0 = 2"
    by (simp add: unacked_def inbox_acknowledged upt_rec)
  have z: "failed (stats boot) = 0" "requests boot = []"
    by (simp_all add: boot_def)
  from archive_failure_is_not_fatal [OF no_dry_run, of inbox 4 boot ?ts] no_dry_run [of inbox]
  show ?thesis
    unfolding r u by (simp add: z puts_def)
qed

text \<open>
  C5. When the fetch of some page fails (the pages before it are non-empty and announce
  more, and the request for page \<open>n\<close> is rejected or its body cannot be read), \<open>run\<close>
  ends with \<open>process.exit(1)\<close> after printing the fatal error; it has sent the list
  requests up to page \<open>n\<close> and no update request.
\<close>

theorem fetch_failure_is_fatal:
  assumes "\<forall>k<n. continues (page e (requests w) k)"
      and "\<not> delivered (page e (requests w) n)"
  shows "\<exists>(err::js_error) w'. run e w = Some (Exited 1, w')
           \<and> last (console w') = FatalError (message err)
           \<and> requests w' = requests w @ gets (Suc n)
           \<and> put_ids (requests w') = put_ids (requests w)
           \<and> stats w' = stats w"
proof -
  have "\<forall>k<n. continues (page e (requests (print Banner w)) k)"
    and "\<not> delivered (page e (requests (print Banner w)) n)"
    using assms by simp_all
  from getAllThreads_pages(2) [OF this] obtain err w1 where
    g: "getAllThreads e (print Banner w) = Some (Inl err, w1)"
    and w1: "requests w1 = requests w @ gets (Suc n)" "stats w1 = stats w"
    by auto
  let ?w' = "print (FatalError (message err)) w1"
  have "run e w = Some (Exited 1, ?w')
      \<and> last (console ?w') = FatalError (message err)
      \<and> requests ?w' = requests w @ gets (Suc n)
      \<and> put_ids (requests ?w') = put_ids (requests w)
      \<and> stats ?w' = stats w"
    using run_fetch_failed [OF g] w1 by simp
  then show ?thesis by blast
qed

theorem fetch_failure_is_fatal_witness:
  "continues (page (shell broken_inbox [''--yes'']) (requests boot) 0)
   \<and> \<not> delivered (page (shell broken_inbox [''--yes'']) (requests boot) 1)
   \<and> (\<exists>(err::js_error) w'. run (shell broken_inbox [''--yes'']) boot = Some (Exited 1, w')
           \<and> last (console w') = FatalError (message err)
           \<and> requests w' = [Get 0 100, Get 100 100]
           \<and> put_ids (requests w') = [])"
proof -
  have c: "\<forall>k<1. continues (page (shell broken_inbox [''--yes'']) (requests boot) k)"
    by (simp add: broken_inbox_pages continues_def)
  have d: "\<not> delivered (page (shell broken_inbox [''--yes'']) (requests boot) 1)"
    by (simp add: broken_inbox_pages)
  have c0: "continues (page (shell broken_inbox [''--yes'']) (requests boot) 0)"
    using c by simp
  have r: "requests boot @ gets (Suc 1) = [Get 0 100, Get 100 100]"
    "put_ids (requests boot) = []"
    by (simp_all add: gets_2 boot_def)
  from fetch_failure_is_fatal [OF c d] c0 d show ?thesis
    unfolding r by blast
qed

text \<open>
  C6. When the user is asked and says no, \<open>run\<close> returns without an update request, and
  the statistics are as the constructor set them: all zero.
\<close>

theorem declined_run_changes_nothing:
  assumes "constructor e w0 = (Returned, w)"
      and "getAllThreads e (print Banner w) = Some (Inr ts, w1)"
      and "unarchived_of ts \<noteq> []"
      and "fst (confirmArchive e (length (unarchived_of ts)) (snd (displayThreadInfo ts w1)))
             = Inr False"
  shows "\<exists>w'. run e w = Some (Returned, w')
           \<and> put_ids (requests w') = put_ids (requests w0)
           \<and> stats w' = \<lparr>total_s = 0, archived = 0, alreadyArchived = 0, failed = 0\<rparr>"
proof -
  let ?n = "length (unarchived_of ts)"
  let ?w2 = "snd (displayThreadInfo ts w1)"
  have w: "stats w = \<lparr>total_s = 0, archived = 0, alreadyArchived = 0, failed = 0\<rparr>"
    "requests w = requests w0"
    using assms(1) by (auto simp: constructor_def split: if_splits)
  note fr = getAllThreads_frame [OF assms(2), simplified]
  obtain w3 where c: "confirmArchive e ?n ?w2 = (Inr False, w3)"
    using assms(4) by (cases "confirmArchive e ?n ?w2") simp
  have w3: "stats w3 = stats w" "requests w3 = requests w1"
    using confirmArchive_snd [of e ?n ?w2] c fr by (simp_all add: displayThreadInfo_snd)
  have "run e w = Some (Returned, print Cancelled w3)"
    using run_asks [OF assms(2,3)] c by simp
  then show ?thesis
    using w w3 fr by simp
qed

theorem declined_run_changes_nothing_witness:
  "\<exists>w1 w'. constructor (shell inbox []) boot = (Returned, boot)
     \<and> getAllThreads (shell inbox []) (print Banner boot) =
         Some (Inr [mail 2 0, mail 3 1, mail 4 0, mail 6 0], w1)
     \<and> unarchived_of [mail 2 0, mail 3 1, mail 4 0, mail 6 0] = [mail 2 0, mail 4 0, mail 6 0]
     \<and> fst (confirmArchive (shell inbox []) 3
               (snd (displayThreadInfo [mail 2 0, mail 3 1, mail 4 0, mail 6 0] w1))) = Inr False
     \<and> run (shell inbox []) boot = Some (Returned, w')
     \<and> put_ids (requests w') = []
     \<and> stats w' = \<lparr>total_s = 0, archived = 0, alreadyArchived = 0, failed = 0\<rparr>"
proof -
  let ?e = "shell inbox []"
  let ?ts = "[mail 2 0, mail 3 1, mail 4 0, mail 6 0]"
  have k: "constructor ?e boot = (Returned, boot)"
    by (simp add: constructor_def shell_def or_else_def boot_def)
  have c: "\<forall>k<1. continues (page ?e (requests (print Banner boot)) k)"
    by (simp add: inbox_pages continues_def)
  have s: "stops (page ?e (requests (print Banner boot)) 1)"
    by (simp add: inbox_pages stops_def)
  have i: "concat (map (\<lambda>k. items (page ?e (requests (print Banner boot)) k)) [0..<Suc 1]) = ?ts"
    by (simp add: inbox_pages upt_rec)
  from getAllThreads_pages(1) [OF c s] obtain w1 where
    g: "getAllThreads ?e (print Banner boot) = Some (Inr ?ts, w1)"
    unfolding i by blast
  have u: "unarchived_of ?ts = [mail 2 0, mail 4 0, mail 6 0]"
    by (simp add: unarchived_of_def)
  then have u': "unarchived_of ?ts \<noteq> []" and n: "length (unarchived_of ?ts) = 3"
    by simp_all
  have a: "fst (confirmArchive ?e (length (unarchived_of ?ts)) (snd (displayThreadInfo ?ts w1)))
             = Inr False"
    by (simp add: confirmArchive_def inquirer_prompt_def shell_def)
  have p: "put_ids (requests boot) = []" by (simp add: boot_def)
  from declined_run_changes_nothing [OF k g u' a] obtain w' where
    r: "run ?e boot = Some (Returned, w')" "put_ids (requests w') = put_ids (requests boot)"
      "stats w' = \<lparr>total_s = 0, archived = 0, alreadyArchived = 0, failed = 0\<rparr>"
    by blast
  have "constructor ?e boot = (Returned, boot)
     \<and> getAllThreads ?e (print Banner boot) = Some (Inr ?ts, w1)
     \<and> unarchived_of ?ts = [mail 2 0, mail 4 0, mail 6 0]
     \<and> fst (confirmArchive ?e 3 (snd (displayThreadInfo ?ts w1))) = Inr False
     \<and> run ?e boot = Some (Returned, w')
     \<and> put_ids (requests w') = []
     \<and> stats w' = \<lparr>total_s = 0, archived = 0, alreadyArchived = 0, failed = 0\<rparr>"
    using k g u a [unfolded n] r p by metis
  then show ?thesis by blast
qed

text \<open>
  C7. \<open>displayThreadInfo\<close> splits the threads by the truthiness of \<open>archived_flag\<close>:
  the ones with a falsy flag are the unarchived group, which it returns, the ones with a
  truthy flag the archived group; every thread is in exactly one of the two, and the two
  lengths, which it prints, add up to the number of threads.
\<close>

theorem displayThreadInfo_partitions:
  "fst (displayThreadInfo threads w) = unarchived_of threads
   \<and> set (unarchived_of threads) = {t \<in> set threads. \<not> truthy (archived_flag t)}
   \<and> set (archived_of threads) = {t \<in> set threads. truthy (archived_flag t)}
   \<and> mset (unarchived_of threads) + mset (archived_of threads) = mset threads
   \<and> set (unarchived_of threads) \<inter> set (archived_of threads) = {}
   \<and> length (unarchived_of threads) + length (archived_of threads) = length threads
   \<and> (\<exists>ls. console (snd (displayThreadInfo threads w)) =
          console w @ [SummaryHeader, TotalFound (length threads),
                       UnarchivedCount (length (unarchived_of threads)),
                       AlreadyArchivedCount (length (archived_of threads))] @ ls)"
proof -
  have "mset (unarchived_of threads) + mset (archived_of threads) = mset threads"
    by (simp add: unarchived_of_def archived_of_def add.commute)
  moreover have "length (unarchived_of threads) + length (archived_of threads) = length threads"
    using sum_length_filter_compl [of "\<lambda>t. truthy (archived_flag t)" threads]
    by (simp add: unarchived_of_def archived_of_def)
  moreover have "set (unarchived_of threads) \<inter> set (archived_of threads) = {}"
    by (auto simp: unarchived_of_def archived_of_def)
  ultimately show ?thesis
    using displayThreadInfo_console [of threads w]
    by (simp add: displayThreadInfo_fst) (simp add: unarchived_of_def archived_of_def)
qed

text \<open>
  C9. With \<open>--yes\<close> or \<open>-y\<close> on the command line \<open>confirmArchive\<close> returns true and
  changes nothing: the prompt is not asked, whatever the thread count.
\<close>

theorem yes_flag_skips_prompt:
  assumes "''--yes'' \<in> set (argv e) \<or> ''-y'' \<in> set (argv e)"
  shows "confirmArchive e threadCount w = (Inr True, w)
       \<and> prompts (snd (confirmArchive e threadCount w)) = prompts w"
  using assms by (auto simp: confirmArchive_def)

theorem yes_flag_skips_prompt_witness:
  "(''--yes'' \<in> set (argv (shell inbox [''-y''])) \<or> ''-y'' \<in> set (argv (shell inbox [''-y''])))
   \<and> confirmArchive (shell inbox [''-y'']) 3 boot = (Inr True, boot)
   \<and> prompts (snd (confirmArchive (shell inbox [''-y'']) 3 boot)) = []
   \<and> fst (confirmArchive (shell inbox []) 3 boot) = Inr False
   \<and> prompts (snd (confirmArchive (shell inbox []) 3 boot)) = [3]"
proof -
  have y: "''--yes'' \<in> set (argv (shell inbox [''-y''])) \<or> ''-y'' \<in> set (argv (shell inbox [''-y'']))"
    by (simp add: shell_def)
  have n: "fst (confirmArchive (shell inbox []) 3 boot) = Inr False"
    "prompts (snd (confirmArchive (shell inbox []) 3 boot)) = [3]"
    by (simp_all add: confirmArchive_def inquirer_prompt_def shell_def boot_def)
  have p: "prompts boot = []" by (simp add: boot_def)
  from yes_flag_skips_prompt [OF y, of 3 boot] y n p show ?thesis
    by simp
qed

text \<open>
  C8. When a run of a freshly constructed archiver ends, \<open>archived + failed \<le> total\<close>,
  and the update requests it has sent are for threads \<open>ts\<close> that all have a falsy
  \<open>archived_flag\<close>: none at all, or exactly the unarchived ones of the fetched list.
\<close>

theorem run_counts_and_submits_unarchived_only:
  assumes "constructor e w0 = (Returned, w)"
      and "run e w = Some (oc, w')"
  shows "archived (stats w') + failed (stats w') \<le> total_s (stats w')
       \<and> (\<exists>ts. put_ids (requests w') = put_ids (requests w) @ map thread_id ts
              \<and> list_all (\<lambda>t. \<not> truthy (archived_flag t)) ts
              \<and> (ts = [] \<or> (\<exists>fetched w1.
                     getAllThreads e (print Banner w) = Some (Inr fetched, w1)
                     \<and> ts = unarchived_of fetched)))"
proof -
  from run_effect [OF assms(2)] obtain ts where
    p: "put_ids (requests w') = put_ids (requests w) @ map thread_id ts"
    and t: "ts = [] \<or> (\<exists>fetched w1. getAllThreads e (print Banner w) = Some (Inr fetched, w1)
                            \<and> ts = unarchived_of fetched)"
    and s: "stats w' = stats w
              \<or> (\<exists>a f. a + f = length ts \<and>
                   stats w' = \<lparr>total_s = length ts, archived = archived (stats w) + a,
                               alreadyArchived = alreadyArchived (stats w),
                               failed = failed (stats w) + f\<rparr>)"
    by blast
  have "list_all (\<lambda>t. \<not> truthy (archived_flag t)) ts"
    using t by (auto simp: unarchived_of_def list_all_iff)
  moreover have "archived (stats w') + failed (stats w') \<le> total_s (stats w')"
    using s constructor_stats(1) [OF assms(1)] by auto
  ultimately show ?thesis using p t by blast
qed

theorem run_counts_and_submits_unarchived_only_witness:
  "\<exists>w'. constructor (shell inbox [''--yes'']) boot = (Returned, boot)
     \<and> run (shell inbox [''--yes'']) boot = Some (Returned, w')
     \<and> stats w' = \<lparr>total_s = 3, archived = 2, alreadyArchived = 0, failed = 1\<rparr>
     \<and> archived (stats w') + failed (stats w') \<le> total_s (stats w')
     \<and> put_ids (requests w') = [2, 4, 6]
     \<and> (\<exists>ts. put_ids (requests w') = put_ids (requests boot) @ map thread_id ts
            \<and> list_all (\<lambda>t. \<not> truthy (archived_flag t)) ts
            \<and> (ts = [] \<or> (\<exists>fetched w1.
                   getAllThreads (shell inbox [''--yes'']) (print Banner boot)
                     = Some (Inr fetched, w1)
                   \<and> ts = unarchived_of fetched)))"
proof -
  let ?e = "shell inbox [''--yes'']"
  have k: "constructor ?e boot = (Returned, boot)"
    by (simp add: constructor_def shell_def or_else_def boot_def)
  obtain w' where r: "run ?e boot = Some (Returned, w')"
    and s: "stats w' = \<lparr>total_s = 3, archived = 2, alreadyArchived = 0, failed = 1\<rparr>"
    and q: "requests w' = [Get 0 100, Get 100 100, Put 2, Put 4, Put 6]"
    using inbox_run by blast
  have p: "put_ids (requests w') = [2, 4, 6]" by (simp add: q)
  from run_counts_and_submits_unarchived_only [OF k r] k r s p show ?thesis
    by blast
qed

text \<open>
  C10. No operation writes \<open>alreadyArchived\<close>: the constructor sets it to 0, and
  \<open>fetchMailThreads\<close>, \<open>archiveThread\<close>, \<open>getAllThreads\<close>, \<open>displayThreadInfo\<close>,
  \<open>confirmArchive\<close>, \<open>archiveAll\<close> and \<open>displayStats\<close> each leave it as it was in
  whatever world \<open>v\<close> they start; so it is 0 when a run of a constructed archiver ends.
  \<open>displayThreadInfo\<close> prints the number of archived threads and stores nothing.
\<close>

theorem alreadyArchived_is_never_written:
  assumes "constructor e w0 = (Returned, w)"
      and "run e w = Some (oc, w')"
  shows "alreadyArchived (stats w) = 0 \<and> alreadyArchived (stats w') = 0
       \<and> alreadyArchived (stats (snd (fetchMailThreads e start limit v)))
           = alreadyArchived (stats v)
       \<and> alreadyArchived (stats (snd (archiveThread e i v))) = alreadyArchived (stats v)
       \<and> alreadyArchived (stats (case getAllThreads e v of None \<Rightarrow> v | Some (r, v') \<Rightarrow> v'))
           = alreadyArchived (stats v)
       \<and> stats (snd (displayThreadInfo threads v)) = stats v
       \<and> AlreadyArchivedCount (length (archived_of threads))
           \<in> set (console (snd (displayThreadInfo threads v)))
       \<and> stats (snd (confirmArchive e n v)) = stats v
       \<and> alreadyArchived (stats (archiveAll e threads v)) = alreadyArchived (stats v)
       \<and> stats (displayStats v) = stats v"
proof -
  have z: "alreadyArchived (stats w) = 0"
    using constructor_stats(1) [OF assms(1)] by simp
  from run_effect [OF assms(2)] have "alreadyArchived (stats w') = alreadyArchived (stats w)"
    by auto
  with z have z': "alreadyArchived (stats w') = 0" by simp
  have g: "alreadyArchived (stats (case getAllThreads e v of None \<Rightarrow> v | Some (r, v') \<Rightarrow> v'))
           = alreadyArchived (stats v)"
    using getAllThreads_frame(1) [of e v]
    by (cases "getAllThreads e v") auto
  have a: "alreadyArchived (stats (snd (archiveThread e i v))) = alreadyArchived (stats v)"
    by (simp add: archiveThread_stats)
  have c: "AlreadyArchivedCount (length (archived_of threads))
           \<in> set (console (snd (displayThreadInfo threads v)))"
    using displayThreadInfo_console [of threads v] by auto
  show ?thesis
    using z z' g a c
    by (simp add: fetch_snd displayThreadInfo_snd confirmArchive_snd
          archiveAll_alreadyArchived displayStats_fields)
qed

theorem alreadyArchived_is_never_written_witness:
  "\<exists>w' w1. constructor (shell inbox [''--yes'']) boot = (Returned, boot)
     \<and> run (shell inbox [''--yes'']) boot = Some (Returned, w')
     \<and> getAllThreads (shell inbox [''--yes'']) (print Banner boot) =
          Some (Inr [mail 2 0, mail 3 1, mail 4 0, mail 6 0], w1)
     \<and> archived_of [mail 2 0, mail 3 1, mail 4 0, mail 6 0] = [mail 3 1]
     \<and> AlreadyArchivedCount 1
          \<in> set (console (snd (displayThreadInfo [mail 2 0, mail 3 1, mail 4 0, mail 6 0] w1)))
     \<and> stats w' = \<lparr>total_s = 3, archived = 2, alreadyArchived = 0, failed = 1\<rparr>
     \<and> alreadyArchived (stats w') = 0"
proof -
  let ?e = "shell inbox [''--yes'']"
  let ?ts = "[mail 2 0, mail 3 1, mail 4 0, mail 6 0]"
  have k: "constructor ?e boot = (Returned, boot)"
    by (simp add: constructor_def shell_def or_else_def boot_def)
  obtain w' where r: "run ?e boot = Some (Returned, w')"
    and s: "stats w' = \<lparr>total_s = 3, archived = 2, alreadyArchived = 0, failed = 1\<rparr>"
    using inbox_run by blast
  obtain w1 where g: "getAllThreads ?e (print Banner boot) = Some (Inr ?ts, w1)"
    using inbox_fetched [of "[''--yes'']"] by blast
  have a: "archived_of ?ts = [mail 3 1]"
    by (simp add: archived_of_def)
  from alreadyArchived_is_never_written [OF k r, of _ _ w1 _ ?ts]
  have "alreadyArchived (stats w') = 0"
    and "AlreadyArchivedCount (length (archived_of ?ts))
           \<in> set (console (snd (displayThreadInfo ?ts w1)))"
    by blast+
  then have "constructor ?e boot = (Returned, boot)
     \<and> run ?e boot = Some (Returned, w')
     \<and> getAllThreads ?e (print Banner boot) = Some (Inr ?ts, w1)
     \<and> archived_of ?ts = [mail 3 1]
     \<and> AlreadyArchivedCount 1 \<in> set (console (snd (displayThreadInfo ?ts w1)))
     \<and> stats w' = \<lparr>total_s = 3, archived = 2, alreadyArchived = 0, failed = 1\<rparr>
     \<and> alreadyArchived (stats w') = 0"
    using k r g a s by simp
  then show ?thesis by blast
qed

end
